theory Spec2Isabelle
  imports
    Main
    "HOL-Library.AList"
    "HOL-Library.Multiset"
    "HOL-Library.Char_ord"
    "HOL-Library.List_Lexorder"
    "HOL-Library.Product_Lexorder"
begin

section \<open>Python values, exceptions and strings\<close>

text \<open>
  The program is \<^verbatim>\<open>complaint_borough.py\<close>. A field of a row delivered by
  \<^verbatim>\<open>csv.DictReader\<close> is a \<^verbatim>\<open>str\<close>, or \<^verbatim>\<open>None\<close> when the row has
  fewer fields than the header (the reader's \<^verbatim>\<open>restval\<close>). Strings are lists of
  characters; a character stands for the code point of the same number.
\<close>

datatype pyval = PStr string | PNone

datatype exn_kind =
  TypeError | AttributeError | ValueError | FileNotFoundError | OtherException

text \<open>An exception is its class and its message (\<^verbatim>\<open>str(e)\<close>).\<close>

type_synonym exn = "exn_kind \<times> string"

definition py_isspace :: "char \<Rightarrow> bool" where
  "py_isspace c \<longleftrightarrow>
     (let n = (of_char c :: nat)
      in (9 \<le> n \<and> n \<le> 13) \<or> (28 \<le> n \<and> n \<le> 32) \<or> n = 133 \<or> n = 160)"

text \<open>\<^verbatim>\<open>str.strip()\<close>: whitespace removed at both ends.\<close>

definition py_strip :: "string \<Rightarrow> string" where
  "py_strip s = rev (dropWhile py_isspace (rev (dropWhile py_isspace s)))"

text \<open>\<^verbatim>\<open>v.strip()\<close> on a value that may be \<^verbatim>\<open>None\<close>.\<close>

definition strip_method :: "pyval \<Rightarrow> exn + string" where
  "strip_method v =
     (case v of
        PStr s \<Rightarrow> Inr (py_strip s)
      | PNone \<Rightarrow>
          Inl (AttributeError,
               [CHR 0x27] @ ''NoneType'' @ [CHR 0x27] @ '' object has no attribute ''
                 @ [CHR 0x27] @ ''strip'' @ [CHR 0x27]))"

definition is_digit :: "char \<Rightarrow> bool" where
  "is_digit c \<longleftrightarrow> (48 \<le> (of_char c :: nat) \<and> (of_char c :: nat) \<le> 57)"

definition digit_val :: "char \<Rightarrow> int" where
  "digit_val c = int (of_char c) - 48"

text \<open>\<^verbatim>\<open>int(s)\<close> on the text of a regex group: surrounding whitespace is ignored.\<close>

definition py_int :: "string \<Rightarrow> int option" where
  "py_int s =
     (let t = py_strip s
      in if t \<noteq> [] \<and> list_all is_digit t
         then Some (foldl (\<lambda>n c. 10 * n + digit_val c) 0 t)
         else None)"

fun str_nat :: "nat \<Rightarrow> string" where
  "str_nat n =
     (if n < 10 then [char_of (48 + n)]
      else str_nat (n div 10) @ [char_of (48 + n mod 10)])"

declare str_nat.simps [simp del]

text \<open>\<^verbatim>\<open>str(n)\<close> of a Python integer, as the f-string renders the count.\<close>

definition str_int :: "int \<Rightarrow> string" where
  "str_int i = (if i < 0 then CHR ''-'' # str_nat (nat (- i)) else str_nat (nat i))"

text \<open>\<^verbatim>\<open>sep.join(xs)\<close>.\<close>

fun py_join :: "string \<Rightarrow> string list \<Rightarrow> string" where
  "py_join sep [] = []"
| "py_join sep [x] = x"
| "py_join sep (x # y # ys) = x @ sep @ py_join sep (y # ys)"

section \<open>datetime\<close>

record datetime =
  year :: int
  month :: int
  day :: int
  hour :: int
  minute :: int
  second :: int

definition dt_key :: "datetime \<Rightarrow> int \<times> int \<times> int \<times> int \<times> int \<times> int" where
  "dt_key d = (year d, month d, day d, hour d, minute d, second d)"

text \<open>\<^verbatim>\<open>a < b\<close> on naive datetimes: chronological order.\<close>

definition dt_less :: "datetime \<Rightarrow> datetime \<Rightarrow> bool" where
  "dt_less a b \<longleftrightarrow> dt_key a < dt_key b"

definition is_leap :: "int \<Rightarrow> bool" where
  "is_leap y \<longleftrightarrow> y mod 4 = 0 \<and> (y mod 100 \<noteq> 0 \<or> y mod 400 = 0)"

definition days_in_month :: "int \<Rightarrow> int \<Rightarrow> int" where
  "days_in_month y m =
     (if m = 2 then (if is_leap y then 29 else 28)
      else if m = 4 \<or> m = 6 \<or> m = 9 \<or> m = 11 then 30 else 31)"

text \<open>
  The constructor \<^verbatim>\<open>datetime(y, m, d, H, M, S)\<close>: it raises \<^verbatim>\<open>ValueError\<close> for
  a field out of range (the year between 1 and 9999, the day within the month).
\<close>

definition datetime_new :: "int \<Rightarrow> int \<Rightarrow> int \<Rightarrow> int \<Rightarrow> int \<Rightarrow> int \<Rightarrow> exn + datetime" where
  "datetime_new y m d H M S =
     (if 1 \<le> y \<and> y \<le> 9999 \<and> 1 \<le> m \<and> m \<le> 12 \<and> 1 \<le> d \<and> d \<le> days_in_month y m
         \<and> 0 \<le> H \<and> H \<le> 23 \<and> 0 \<le> M \<and> M \<le> 59 \<and> 0 \<le> S \<and> S \<le> 59
      then Inr \<lparr>year = y, month = m, day = d, hour = H, minute = M, second = S\<rparr>
      else Inl (ValueError, ''value out of range''))"

subsection \<open>strptime\<close>

text \<open>
  Modelled from the spec: \<^verbatim>\<open>datetime.strptime\<close> belongs to the Python standard library
  and is not part of the repository. The spec fixes the patterns
  (\<^verbatim>\<open>month/day/year hour:minute:second AM|PM\<close>, 12-hour clock, and \<^verbatim>\<open>MM/DD/YYYY\<close>) and
  that every parse failure is one recoverable condition; the details below follow the
  library (CPython 3.11, C locale): the format is turned into a regular expression that is
  matched with backtracking at the start of the string, the first match must cover the
  whole string, and the groups are converted with \<^verbatim>\<open>int\<close>. A matcher returns the
  matches at the start of its input, in the order backtracking tries them, each with the
  matched text and the rest of the input.
\<close>

type_synonym rx = "string \<Rightarrow> (string \<times> string) list"

definition rx_cls :: "(char \<Rightarrow> bool) \<Rightarrow> rx" where
  "rx_cls P s = (case s of [] \<Rightarrow> [] | c # r \<Rightarrow> if P c then [([c], r)] else [])"

definition rx_seq :: "rx \<Rightarrow> rx \<Rightarrow> rx" where
  "rx_seq p q s = [(a @ b, r'). (a, r) \<leftarrow> p s, (b, r') \<leftarrow> q r]"

definition rx_alt :: "rx \<Rightarrow> rx \<Rightarrow> rx" where
  "rx_alt p q s = p s @ q s"

definition rx_chr :: "char \<Rightarrow> rx" where
  "rx_chr c = rx_cls (\<lambda>x. x = c)"

definition rx_range :: "char \<Rightarrow> char \<Rightarrow> rx" where
  "rx_range lo hi = rx_cls (\<lambda>x. (of_char lo :: nat) \<le> of_char x \<and> (of_char x :: nat) \<le> of_char hi)"

text \<open>\<^verbatim>\<open>\d\<close>\<close>

definition rx_digit :: rx where
  "rx_digit = rx_cls is_digit"

text \<open>\<^verbatim>\<open>\s+\<close>, greedy: the longest run of whitespace first.\<close>

fun rx_spaces :: rx where
  "rx_spaces [] = []"
| "rx_spaces (c # r) =
     (if py_isspace c then map (\<lambda>(a, r'). (c # a, r')) (rx_spaces r) @ [([c], r)] else [])"

text \<open>\<^verbatim>\<open>%m\<close> and \<^verbatim>\<open>%I\<close>: \<^verbatim>\<open>1[0-2]|0[1-9]|[1-9]\<close>\<close>

definition rx_m :: rx where
  "rx_m = rx_alt (rx_seq (rx_chr CHR ''1'') (rx_range CHR ''0'' CHR ''2''))
         (rx_alt (rx_seq (rx_chr CHR ''0'') (rx_range CHR ''1'' CHR ''9''))
                 (rx_range CHR ''1'' CHR ''9''))"

text \<open>\<^verbatim>\<open>%d\<close>: \<^verbatim>\<open>3[0-1]|[1-2]\d|0[1-9]|[1-9]| [1-9]\<close>\<close>

definition rx_d :: rx where
  "rx_d = rx_alt (rx_seq (rx_chr CHR ''3'') (rx_range CHR ''0'' CHR ''1''))
         (rx_alt (rx_seq (rx_range CHR ''1'' CHR ''2'') rx_digit)
         (rx_alt (rx_seq (rx_chr CHR ''0'') (rx_range CHR ''1'' CHR ''9''))
         (rx_alt (rx_range CHR ''1'' CHR ''9'')
                 (rx_seq (rx_chr CHR '' '') (rx_range CHR ''1'' CHR ''9'')))))"

text \<open>\<^verbatim>\<open>%Y\<close>: \<^verbatim>\<open>\d\d\d\d\<close>\<close>

definition rx_Y :: rx where
  "rx_Y = rx_seq rx_digit (rx_seq rx_digit (rx_seq rx_digit rx_digit))"

text \<open>\<^verbatim>\<open>%M\<close>: \<^verbatim>\<open>[0-5]\d|\d\<close>\<close>

definition rx_M :: rx where
  "rx_M = rx_alt (rx_seq (rx_range CHR ''0'' CHR ''5'') rx_digit) rx_digit"

text \<open>\<^verbatim>\<open>%S\<close>: \<^verbatim>\<open>6[0-1]|[0-5]\d|\d\<close>\<close>

definition rx_S :: rx where
  "rx_S = rx_alt (rx_seq (rx_chr CHR ''6'') (rx_range CHR ''0'' CHR ''1''))
         (rx_alt (rx_seq (rx_range CHR ''0'' CHR ''5'') rx_digit) rx_digit)"

text \<open>\<^verbatim>\<open>%p\<close>: \<^verbatim>\<open>am|pm\<close>, letters of either case.\<close>

definition rx_p :: rx where
  "rx_p = rx_alt
     (rx_seq (rx_cls (\<lambda>c. c = CHR ''a'' \<or> c = CHR ''A'')) (rx_cls (\<lambda>c. c = CHR ''m'' \<or> c = CHR ''M'')))
     (rx_seq (rx_cls (\<lambda>c. c = CHR ''p'' \<or> c = CHR ''P'')) (rx_cls (\<lambda>c. c = CHR ''m'' \<or> c = CHR ''M'')))"

text \<open>The regular expression of \<^verbatim>\<open>%m/%d/%Y\<close>, with its groups m, d, Y.\<close>

definition re_mdY :: "string \<Rightarrow> ((string \<times> string \<times> string) \<times> string) list" where
  "re_mdY s0 =
     [((gm, gd, gY), s5).
        (gm, s1) \<leftarrow> rx_m s0, (x1, s2) \<leftarrow> rx_chr CHR ''/'' s1,
        (gd, s3) \<leftarrow> rx_d s2, (x2, s4) \<leftarrow> rx_chr CHR ''/'' s3,
        (gY, s5) \<leftarrow> rx_Y s4]"

text \<open>The regular expression of \<^verbatim>\<open>%m/%d/%Y %I:%M:%S %p\<close>: the date, then the groups I, M, S, p.\<close>

definition re_mdY_IMSp ::
  "string \<Rightarrow> (((string \<times> string \<times> string) \<times> string \<times> string \<times> string \<times> string) \<times> string) list" where
  "re_mdY_IMSp s0 =
     [((g, gI, gM, gS, gp), s7).
        (g, s1) \<leftarrow> re_mdY s0, (x1, s2) \<leftarrow> rx_spaces s1,
        (gI, s3) \<leftarrow> rx_m s2, (x2, s4) \<leftarrow> rx_chr CHR '':'' s3,
        (gM, s5) \<leftarrow> rx_M s4, (x3, s6) \<leftarrow> rx_chr CHR '':'' s5,
        (gS, s6') \<leftarrow> rx_S s6, (x4, s6'') \<leftarrow> rx_spaces s6',
        (gp, s7) \<leftarrow> rx_p s6'']"

definition no_match :: exn where
  "no_match = (ValueError, ''time data does not match format'')"

definition unconverted :: exn where
  "unconverted = (ValueError, ''unconverted data remains'')"

text \<open>The hour of a 12-hour clock: 12 AM is hour 0, 12 PM is hour 12.\<close>

definition hour12 :: "int \<Rightarrow> string \<Rightarrow> int" where
  "hour12 h gp =
     (if map (\<lambda>c. if c = CHR ''A'' then CHR ''a'' else if c = CHR ''M'' then CHR ''m''
                   else if c = CHR ''P'' then CHR ''p'' else c) gp = ''am''
      then (if h = 12 then 0 else h)
      else (if h \<noteq> 12 then h + 12 else h))"

text \<open>\<^verbatim>\<open>datetime.strptime(s, '%m/%d/%Y')\<close>\<close>

definition strptime_mdY :: "pyval \<Rightarrow> exn + datetime" where
  "strptime_mdY v =
     (case v of
        PNone \<Rightarrow> Inl (TypeError, ''strptime() argument 1 must be str, not None'')
      | PStr s \<Rightarrow>
         (case re_mdY s of
            [] \<Rightarrow> Inl no_match
          | ((gm, gd, gY), rest) # _ \<Rightarrow>
              if rest \<noteq> [] then Inl unconverted
              else (case (py_int gY, py_int gm, py_int gd) of
                      (Some y, Some m, Some d) \<Rightarrow> datetime_new y m d 0 0 0
                    | _ \<Rightarrow> Inl (ValueError, ''invalid literal for int()''))))"

text \<open>\<^verbatim>\<open>datetime.strptime(s, '%m/%d/%Y %I:%M:%S %p')\<close>\<close>

definition strptime_mdY_IMSp :: "pyval \<Rightarrow> exn + datetime" where
  "strptime_mdY_IMSp v =
     (case v of
        PNone \<Rightarrow> Inl (TypeError, ''strptime() argument 1 must be str, not None'')
      | PStr s \<Rightarrow>
         (case re_mdY_IMSp s of
            [] \<Rightarrow> Inl no_match
          | (((gm, gd, gY), gI, gM, gS, gp), rest) # _ \<Rightarrow>
              if rest \<noteq> [] then Inl unconverted
              else (case (py_int gY, py_int gm, py_int gd, py_int gI, py_int gM, py_int gS) of
                      (Some y, Some m, Some d, Some h, Some mi, Some sec) \<Rightarrow>
                         datetime_new y m d (hour12 h gp) mi sec
                    | _ \<Rightarrow> Inl (ValueError, ''invalid literal for int()''))))"

section \<open>The program\<close>

subsection \<open>parse_date\<close>

text \<open>
  \<^verbatim>\<open>parse_date\<close> catches \<^verbatim>\<open>ValueError\<close> and \<^verbatim>\<open>AttributeError\<close> and returns
  \<^verbatim>\<open>None\<close> for them; any other exception leaves the function.
\<close>

definition parse_date :: "pyval \<Rightarrow> exn + datetime option" where
  "parse_date date_str =
     (case strptime_mdY_IMSp date_str of
        Inr d \<Rightarrow> Inr (Some d)
      | Inl e \<Rightarrow> if fst e = ValueError \<or> fst e = AttributeError then Inr None else Inl e)"

subsection \<open>The count table\<close>

text \<open>
  \<^verbatim>\<open>complaint_counts\<close> is a \<^verbatim>\<open>defaultdict(int)\<close>: a dictionary, here the list of its
  items in insertion order. Reading a missing key stores the default 0 under it and
  returns 0.
\<close>

type_synonym key = "string \<times> string"
type_synonym table = "(key \<times> int) list"

definition dd_getitem :: "table \<Rightarrow> key \<Rightarrow> int \<times> table" where
  "dd_getitem d k = (case map_of d k of Some v \<Rightarrow> (v, d) | None \<Rightarrow> (0, d @ [(k, 0)]))"

definition dict_setitem :: "table \<Rightarrow> key \<Rightarrow> int \<Rightarrow> table" where
  "dict_setitem d k v = AList.update k v d"

text \<open>The statement \<^verbatim>\<open>complaint_counts[k] += 1\<close>: a read, then a store.\<close>

definition increment :: "table \<Rightarrow> key \<Rightarrow> table" where
  "increment d k = (case dd_getitem d k of (v, d') \<Rightarrow> dict_setitem d' k (v + 1))"

subsection \<open>filter_complaints\<close>

text \<open>A row is the dictionary the reader delivers: column name to field.\<close>

type_synonym row = "string \<rightharpoonup> pyval"

text \<open>\<^verbatim>\<open>row.get(name, '')\<close>\<close>

definition row_get :: "row \<Rightarrow> string \<Rightarrow> pyval" where
  "row_get r name = (case r name of Some v \<Rightarrow> v | None \<Rightarrow> PStr [])"

text \<open>
  One iteration of \<^verbatim>\<open>for row in reader\<close>: either the reader delivers a row, or it raises
  (bytes that are not UTF-8, a \<^verbatim>\<open>csv.Error\<close>).
\<close>

datatype read_event = Row row | Raises exn

text \<open>The body of the loop, on the table so far. \<^verbatim>\<open>continue\<close> leaves the table as it is.\<close>

definition loop_body :: "datetime \<Rightarrow> datetime \<Rightarrow> row \<Rightarrow> table \<Rightarrow> exn + table" where
  "loop_body start_date end_date r complaint_counts =
     (case parse_date (row_get r ''Created Date'') of
        Inl e \<Rightarrow> Inl e
      | Inr None \<Rightarrow> Inr complaint_counts
      | Inr (Some created_date) \<Rightarrow>
          if dt_less created_date start_date \<or> dt_less end_date created_date
          then Inr complaint_counts
          else (case strip_method (row_get r ''Complaint Type'') of
                  Inl e \<Rightarrow> Inl e
                | Inr complaint_type \<Rightarrow>
                   (case strip_method (row_get r ''Borough'') of
                      Inl e \<Rightarrow> Inl e
                    | Inr borough \<Rightarrow>
                        if complaint_type = [] \<or> borough = [] then Inr complaint_counts
                        else Inr (increment complaint_counts (complaint_type, borough)))))"

fun for_rows :: "datetime \<Rightarrow> datetime \<Rightarrow> read_event list \<Rightarrow> table \<Rightarrow> exn + table" where
  "for_rows start_date end_date [] t = Inr t"
| "for_rows start_date end_date (Raises e # rest) t = Inl e"
| "for_rows start_date end_date (Row r # rest) t =
     (case loop_body start_date end_date r t of
        Inl e \<Rightarrow> Inl e
      | Inr t' \<Rightarrow> for_rows start_date end_date rest t')"

text \<open>
  What the program does to the outside, in order: opening the input file, writing to the
  error stream, writing to the output stream, writing the output file.
\<close>

datatype event = OpenRead string | Stderr string | Stdout string | WriteFile string string

text \<open>A function returns, or leaves the program through \<^verbatim>\<open>sys.exit\<close>.\<close>

datatype 'a outcome = Return 'a | Exit nat

text \<open>
  The files the run finds: opening a path for reading raises or gives the reader's
  events; writing a path succeeds or raises.
\<close>

datatype open_result = OpenRaises exn | Opened "read_event list"

record world =
  fs :: "string \<Rightarrow> open_result"
  write_raises :: "string \<Rightarrow> exn option"

definition nl :: string where
  "nl = [CHR 0x0A]"

text \<open>The two handlers of \<^verbatim>\<open>filter_complaints\<close>.\<close>

definition read_failed :: "string \<Rightarrow> exn \<Rightarrow> event list \<times> table outcome" where
  "read_failed input_file e =
     (if fst e = FileNotFoundError
      then ([OpenRead input_file,
             Stderr (''Error: File '' @ [CHR 0x27] @ input_file @ [CHR 0x27] @ '' not found.'' @ nl)],
            Exit 1)
      else ([OpenRead input_file, Stderr (''Error reading file: '' @ snd e @ nl)], Exit 1))"

definition filter_complaints ::
  "world \<Rightarrow> string \<Rightarrow> datetime \<Rightarrow> datetime \<Rightarrow> event list \<times> table outcome" where
  "filter_complaints w input_file start_date end_date =
     (case fs w input_file of
        OpenRaises e \<Rightarrow> read_failed input_file e
      | Opened rows \<Rightarrow>
         (case for_rows start_date end_date rows [] of
            Inl e \<Rightarrow> read_failed input_file e
          | Inr complaint_counts \<Rightarrow> ([OpenRead input_file], Return complaint_counts)))"

subsection \<open>output_results\<close>

definition sorted_items :: "table \<Rightarrow> (key \<times> int) list" where
  "sorted_items complaint_counts = sort_key (\<lambda>x. (fst (fst x), snd (fst x))) complaint_counts"

definition output_lines :: "table \<Rightarrow> string list" where
  "output_lines complaint_counts =
     foldl (\<lambda>ls x. case x of ((complaint_type, borough), cnt) \<Rightarrow>
               ls @ [complaint_type @ '', '' @ borough @ '', '' @ str_int cnt])
           [''complaint type, borough, count''] (sorted_items complaint_counts)"

text \<open>\<^verbatim>\<open>if output_file:\<close> holds for a string that is not empty.\<close>

definition output_results :: "world \<Rightarrow> table \<Rightarrow> string option \<Rightarrow> event list \<times> unit outcome" where
  "output_results w complaint_counts output_file =
     (let text = py_join nl (output_lines complaint_counts) @ nl
      in case output_file of
           None \<Rightarrow> ([Stdout text], Return ())
         | Some path \<Rightarrow>
             if path = [] then ([Stdout text], Return ())
             else (case write_raises w path of
                     None \<Rightarrow> ([WriteFile path text], Return ())
                   | Some e \<Rightarrow> ([Stderr (''Error writing to file: '' @ snd e @ nl)], Exit 1)))"

subsection \<open>main\<close>

record args =
  arg_input :: string
  arg_start :: string
  arg_end :: string
  arg_output :: "string option"

text \<open>\<^verbatim>\<open>end_date.replace(hour=23, minute=59, second=59)\<close>\<close>

definition end_of_day :: "datetime \<Rightarrow> datetime" where
  "end_of_day d = d\<lparr>hour := 23, minute := 59, second := 59\<rparr>"

text \<open>
  The dates of the command line: both are parsed, then the end date is moved to the end of
  its day; a \<^verbatim>\<open>ValueError\<close> of either ends the program. The arguments are strings,
  on which \<^verbatim>\<open>strptime\<close> raises nothing else (\<open>strptime_mdY_str_error\<close> below).
\<close>

definition parse_window :: "args \<Rightarrow> (datetime \<times> datetime) option" where
  "parse_window a =
     (case strptime_mdY (PStr (arg_start a)) of
        Inl e \<Rightarrow> None
      | Inr start_date \<Rightarrow>
         (case strptime_mdY (PStr (arg_end a)) of
            Inl e \<Rightarrow> None
          | Inr end_date \<Rightarrow> Some (start_date, end_of_day end_date)))"

text \<open>The run: what it does to the outside, and its exit status.\<close>

definition main :: "world \<Rightarrow> args \<Rightarrow> event list \<times> nat" where
  "main w a =
     (case parse_window a of
        None \<Rightarrow> ([Stderr (''Error: Dates must be in MM/DD/YYYY format'' @ nl)], 1)
      | Some (start_date, end_date) \<Rightarrow>
          if dt_less end_date start_date
          then ([Stderr (''Error: Start date must be before or equal to end date'' @ nl)], 1)
          else (case filter_complaints w (arg_input a) start_date end_date of
                  (tr, Exit n) \<Rightarrow> (tr, n)
                | (tr, Return complaint_counts) \<Rightarrow>
                   (case output_results w complaint_counts (arg_output a) of
                      (tr', Exit n) \<Rightarrow> (tr @ tr', n)
                    | (tr', Return u) \<Rightarrow> (tr @ tr', 0))))"

text \<open>The output of a run: what went to the output stream and to the output file.\<close>

definition emitted :: "event list \<Rightarrow> event list" where
  "emitted tr = filter (\<lambda>ev. case ev of Stdout s \<Rightarrow> True | WriteFile p s \<Rightarrow> True | _ \<Rightarrow> False) tr"

definition errors :: "event list \<Rightarrow> string list" where
  "errors tr = concat (map (\<lambda>ev. case ev of Stderr s \<Rightarrow> [s] | _ \<Rightarrow> []) tr)"

section \<open>The properties, in the words of the specification\<close>

text \<open>The inclusive window \<open>[start, end]\<close>.\<close>

definition in_window :: "datetime \<Rightarrow> datetime \<Rightarrow> datetime \<Rightarrow> bool" where
  "in_window start_date end_date d \<longleftrightarrow>
     dt_key start_date \<le> dt_key d \<and> dt_key d \<le> dt_key end_date"

text \<open>
  A row belongs to the pair \<open>k\<close>: its creation date parses to a timestamp inside the
  window, and its complaint type and borough, trimmed, are the components of \<open>k\<close> and are
  not empty.
\<close>

definition row_counts_for :: "datetime \<Rightarrow> datetime \<Rightarrow> key \<Rightarrow> read_event \<Rightarrow> bool" where
  "row_counts_for start_date end_date k ev =
     (case ev of
        Raises e \<Rightarrow> False
      | Row r \<Rightarrow>
         (case parse_date (row_get r ''Created Date'') of
            Inr (Some d) \<Rightarrow>
              in_window start_date end_date d \<and>
              (case (row_get r ''Complaint Type'', row_get r ''Borough'') of
                 (PStr c, PStr b) \<Rightarrow>
                   py_strip c = fst k \<and> py_strip b = snd k \<and> fst k \<noteq> [] \<and> snd k \<noteq> []
               | _ \<Rightarrow> False)
          | _ \<Rightarrow> False))"

text \<open>The number of rows of the input that belong to the pair \<open>k\<close>.\<close>

definition rows_for :: "datetime \<Rightarrow> datetime \<Rightarrow> read_event list \<Rightarrow> key \<Rightarrow> int" where
  "rows_for start_date end_date rows k =
     int (length (filter (row_counts_for start_date end_date k) rows))"

text \<open>The count of a key, 0 for a key that is not in the table.\<close>

definition lookup0 :: "table \<Rightarrow> key \<Rightarrow> int" where
  "lookup0 t k = (case map_of t k of None \<Rightarrow> 0 | Some v \<Rightarrow> v)"

text \<open>The invariant of the count table: every key present has a count of at least 1.\<close>

definition counts_positive :: "table \<Rightarrow> bool" where
  "counts_positive t \<longleftrightarrow> (\<forall>(k, v) \<in> set t. 1 \<le> v)"

text \<open>The input cannot be read: opening it raises, or the reader raises at some row.\<close>

definition unreadable :: "open_result \<Rightarrow> bool" where
  "unreadable f =
     (case f of
        OpenRaises e \<Rightarrow> True
      | Opened rows \<Rightarrow> list_ex (\<lambda>ev. case ev of Raises e \<Rightarrow> True | Row r \<Rightarrow> False) rows)"

text \<open>
  The three fields the program reads are strings (a column absent from the header reads
  as the empty string).
\<close>

definition str_fields :: "row \<Rightarrow> bool" where
  "str_fields r \<longleftrightarrow>
     row_get r ''Created Date'' \<noteq> PNone \<and> row_get r ''Complaint Type'' \<noteq> PNone
     \<and> row_get r ''Borough'' \<noteq> PNone"

text \<open>A field that is empty after trimming.\<close>

definition is_blank :: "pyval \<Rightarrow> bool" where
  "is_blank v = (case v of PStr s \<Rightarrow> py_strip s = [] | PNone \<Rightarrow> False)"

text \<open>
  The defects of a row: a creation date that does not parse, a timestamp outside the
  window, a blank complaint type or borough.
\<close>

definition row_defect :: "datetime \<Rightarrow> datetime \<Rightarrow> row \<Rightarrow> bool" where
  "row_defect start_date end_date r \<longleftrightarrow>
     (case parse_date (row_get r ''Created Date'') of
        Inr (Some d) \<Rightarrow> \<not> in_window start_date end_date d
      | _ \<Rightarrow> True)
     \<or> is_blank (row_get r ''Complaint Type'') \<or> is_blank (row_get r ''Borough'')"

text \<open>The iteration at this event raises: the reader does, or the body of the loop does.\<close>

definition raises_at :: "datetime \<Rightarrow> datetime \<Rightarrow> read_event \<Rightarrow> bool" where
  "raises_at start_date end_date ev =
     (case ev of
        Raises x \<Rightarrow> True
      | Row r \<Rightarrow> (case loop_body start_date end_date r [] of Inl x \<Rightarrow> True | Inr t \<Rightarrow> False))"

subsection \<open>Example inputs\<close>

text \<open>A row with its three fields present.\<close>

definition example_row :: "string \<Rightarrow> string \<Rightarrow> string \<Rightarrow> row" where
  "example_row created complaint_type borough =
     [''Created Date'' \<mapsto> PStr created, ''Complaint Type'' \<mapsto> PStr complaint_type,
      ''Borough'' \<mapsto> PStr borough]"

text \<open>A world with one input file, \<^verbatim>\<open>data.csv\<close>, in which every path can be written.\<close>

definition example_world :: "read_event list \<Rightarrow> world" where
  "example_world rows =
     \<lparr>fs = (\<lambda>p. if p = ''data.csv'' then Opened rows
                else OpenRaises (FileNotFoundError, ''No such file or directory'')),
      write_raises = (\<lambda>p. None)\<rparr>"

definition example_args :: "string \<Rightarrow> string \<Rightarrow> string \<Rightarrow> args" where
  "example_args input_file start end =
     \<lparr>arg_input = input_file, arg_start = start, arg_end = end, arg_output = None\<rparr>"

definition jan_1 :: datetime where
  "jan_1 = \<lparr>year = 2024, month = 1, day = 1, hour = 0, minute = 0, second = 0\<rparr>"

definition jan_31_end :: datetime where
  "jan_31_end = \<lparr>year = 2024, month = 1, day = 31, hour = 23, minute = 59, second = 59\<rparr>"

text \<open>Rows inside and outside January 2024, one with a date that does not parse, one with a blank complaint type.\<close>

definition example_rows :: "read_event list" where
  "example_rows =
     [Row (example_row ''01/01/2024 09:15:00 AM'' '' Noise '' ''BRONX''),
      Row (example_row ''01/01/2024 10:30:00 PM'' ''Noise'' ''BROOKLYN''),
      Row (example_row ''01/01/2024 11:59:59 PM'' ''Noise'' ''BRONX ''),
      Row (example_row ''02/01/2024 12:00:00 AM'' ''Noise'' ''BRONX''),
      Row (example_row ''not a date'' ''Noise'' ''BRONX''),
      Row (example_row ''01/01/2024 11:00:00 AM'' ''  '' ''BRONX'')]"

text \<open>One row at the last second of January 31, one at the first second of February 1.\<close>

definition boundary_rows :: "read_event list" where
  "boundary_rows =
     [Row (example_row ''01/31/2024 11:59:59 PM'' ''Noise'' ''BRONX''),
      Row (example_row ''02/01/2024 12:00:00 AM'' ''Noise'' ''BROOKLYN'')]"

text \<open>
  A row shorter than the header \<^verbatim>\<open>Complaint Type,Borough,Created Date\<close>: the reader
  fills the missing last field with \<^verbatim>\<open>None\<close>.
\<close>

definition short_row :: row where
  "short_row = [''Complaint Type'' \<mapsto> PStr ''Noise'', ''Borough'' \<mapsto> PStr ''BRONX'',
                ''Created Date'' \<mapsto> PNone]"

text \<open>
  The reader fails on the first row (a field longer than the csv module's limit); a good
  row follows.
\<close>

definition oversize_rows :: "read_event list" where
  "oversize_rows =
     [Raises (OtherException, ''field larger than field limit (131072)''),
      Row (example_row ''01/05/2024 09:15:00 AM'' ''Noise'' ''BRONX'')]"

text \<open>A table whose first key has a comma inside the complaint type.\<close>

definition comma_rows :: table where
  "comma_rows = [((''Noise, loud'', ''BRONX''), 12), ((''Heat'', ''QUEENS''), 3)]"

text \<open>The same world, in which no path can be written (permission denied).\<close>

definition unwritable_world :: "read_event list \<Rightarrow> world" where
  "unwritable_world rows =
     \<lparr>fs = (\<lambda>p. if p = ''data.csv'' then Opened rows
                else OpenRaises (FileNotFoundError, ''No such file or directory'')),
      write_raises = (\<lambda>p. Some (OtherException,
                       ''[Errno 13] Permission denied: '' @ [CHR 0x27] @ p @ [CHR 0x27]))\<rparr>"

text \<open>Arguments with an output path.\<close>

definition example_args_out :: "string \<Rightarrow> string \<Rightarrow> string \<Rightarrow> string \<Rightarrow> args" where
  "example_args_out input_file start end output_file =
     \<lparr>arg_input = input_file, arg_start = start, arg_end = end, arg_output = Some output_file\<rparr>"

text \<open>A file whose only row makes the reader raise.\<close>

definition reader_fails_rows :: "read_event list" where
  "reader_fails_rows = [Raises (OtherException, ''field larger than field limit (131072)'')]"

text \<open>The output of a run that counted nothing: the header line.\<close>

definition header_text :: string where
  "header_text = ''complaint type, borough, count'' @ nl"

section \<open>Lemmas on the parser and the table\<close>

lemma strptime_str_error:
  "strptime_mdY_IMSp (PStr s) = Inl e \<Longrightarrow> fst e = ValueError"
  by (auto simp: strptime_mdY_IMSp_def no_match_def unconverted_def datetime_new_def
      split: list.splits prod.splits if_splits option.splits)

lemma strptime_mdY_str_error:
  "strptime_mdY (PStr s) = Inl e \<Longrightarrow> fst e = ValueError"
  by (auto simp: strptime_mdY_def no_match_def unconverted_def datetime_new_def
      split: list.splits prod.splits if_splits option.splits)

lemma parse_date_str: "\<exists>r. parse_date (PStr s) = Inr r"
  using strptime_str_error [of s]
  by (auto simp: parse_date_def split: sum.splits)

lemma map_of_increment:
  "map_of (increment t k) = (map_of t)(k \<mapsto> lookup0 t k + 1)"
  by (rule ext)
     (auto simp: increment_def dd_getitem_def dict_setitem_def lookup0_def update_conv' map_add_def
      split: option.splits)

lemma distinct_increment:
  "distinct (map fst t) \<Longrightarrow> distinct (map fst (increment t k))"
  by (auto simp: increment_def dd_getitem_def dict_setitem_def distinct_update map_of_eq_None_iff
      split: option.splits)

lemma set_increment:
  "distinct (map fst t) \<Longrightarrow> (k', v') \<in> set (increment t k) \<Longrightarrow>
     (k' = k \<and> v' = lookup0 t k + 1) \<or> (k' \<noteq> k \<and> (k', v') \<in> set t)"
  using map_of_increment [of t k] distinct_increment [of t k]
  by (metis fun_upd_apply map_of_eq_Some_iff option.inject)

lemma lookup0_nonneg: "counts_positive t \<Longrightarrow> 0 \<le> lookup0 t k"
  by (auto simp: counts_positive_def lookup0_def split: option.splits dest!: map_of_SomeD)

lemma counts_positive_increment:
  "distinct (map fst t) \<Longrightarrow> counts_positive t \<Longrightarrow> counts_positive (increment t k)"
  unfolding counts_positive_def
  using lookup0_nonneg [of t k] set_increment [of t _ _ k]
  by (fastforce simp: counts_positive_def)

section \<open>Lemmas on the loop\<close>

text \<open>
  An iteration that does not raise either leaves the table as it is, and then the row
  belongs to no pair, or increments one key, and then the row belongs to that pair only.
\<close>

lemma loop_body_cases:
  assumes "loop_body s e r t = Inr t'"
  shows "(t' = t \<and> (\<forall>k. \<not> row_counts_for s e k (Row r))) \<or>
         (\<exists>k0. t' = increment t k0 \<and> (\<forall>k. row_counts_for s e k (Row r) \<longleftrightarrow> k = k0))"
  using assms
  by (auto simp: loop_body_def row_counts_for_def in_window_def dt_less_def strip_method_def not_less
      split: sum.splits option.splits if_splits pyval.splits)

lemma for_rows_lookup:
  "for_rows s e items t = Inr t' \<Longrightarrow>
   map_of t' k =
     (let n = length (filter (row_counts_for s e k) items)
      in if n = 0 then map_of t k else Some (lookup0 t k + int n))"
proof (induction items arbitrary: t)
  case Nil
  then show ?case by simp
next
  case (Cons ev items)
  show ?case
  proof (cases ev)
    case (Raises x)
    with Cons.prems show ?thesis by simp
  next
    case (Row r)
    with Cons.prems obtain t1 where
      body: "loop_body s e r t = Inr t1" and rest: "for_rows s e items t1 = Inr t'"
      by (auto split: sum.splits)
    note IH = Cons.IH [OF rest]
    from loop_body_cases [OF body] show ?thesis
    proof (elim disjE conjE exE)
      assume same: "t1 = t" and none: "\<forall>k. \<not> row_counts_for s e k (Row r)"
      from none have "\<not> row_counts_for s e k (Row r)" by blast
      with IH Row same show ?thesis by simp
    next
      fix k0
      assume t1: "t1 = increment t k0" and only: "\<forall>k. row_counts_for s e k (Row r) = (k = k0)"
      show ?thesis
      proof (cases "k = k0")
        case True
        with only have "row_counts_for s e k (Row r)" by blast
        with IH Row t1 True show ?thesis
          by (simp add: map_of_increment lookup0_def Let_def)
      next
        case False
        with only have "\<not> row_counts_for s e k (Row r)" by blast
        with IH Row t1 False show ?thesis
          by (simp add: map_of_increment lookup0_def Let_def)
      qed
    qed
  qed
qed

lemma loop_body_invariant:
  "loop_body s e r t = Inr t' \<Longrightarrow> distinct (map fst t) \<Longrightarrow> counts_positive t \<Longrightarrow>
     distinct (map fst t') \<and> counts_positive t'"
  using loop_body_cases [of s e r t t']
  by (auto simp: distinct_increment counts_positive_increment)

lemma for_rows_invariant:
  "for_rows s e items t = Inr t' \<Longrightarrow> distinct (map fst t) \<Longrightarrow> counts_positive t \<Longrightarrow>
     distinct (map fst t') \<and> counts_positive t'"
proof (induction items arbitrary: t)
  case Nil
  then show ?case by simp
next
  case (Cons ev items)
  show ?case
  proof (cases ev)
    case (Raises x)
    with Cons.prems show ?thesis by simp
  next
    case (Row r)
    with Cons.prems obtain t1 where
      body: "loop_body s e r t = Inr t1" and rest: "for_rows s e items t1 = Inr t'"
      by (auto split: sum.splits)
    from loop_body_invariant [OF body] Cons.prems
    have "distinct (map fst t1) \<and> counts_positive t1" by simp
    with Cons.IH [OF rest] show ?thesis by simp
  qed
qed

lemma for_rows_table:
  assumes "for_rows s e rows [] = Inr t"
  shows "map_of t k = (if rows_for s e rows k = 0 then None else Some (rows_for s e rows k))"
    and "distinct (map fst t)" and "counts_positive t"
  using for_rows_lookup [OF assms, of k] for_rows_invariant [OF assms]
  by (simp_all add: rows_for_def lookup0_def Let_def counts_positive_def)

lemma filter_complaints_Return:
  assumes "fs w p = Opened rows" and "filter_complaints w p s e = (tr, Return t)"
  shows "for_rows s e rows [] = Inr t" and "tr = [OpenRead p]"
  using assms
  by (auto simp: filter_complaints_def read_failed_def split: sum.splits if_splits)

section \<open>Lemmas on the output\<close>

lemma foldl_snoc_map: "foldl (\<lambda>ls x. ls @ [f x]) acc xs = acc @ map f xs"
  by (induction xs arbitrary: acc) simp_all

lemma output_lines_eq:
  "output_lines t =
     ''complaint type, borough, count'' #
     map (\<lambda>((c, b), v). c @ '', '' @ b @ '', '' @ str_int v) (sorted_items t)"
proof -
  have "(\<lambda>ls x. case x of ((complaint_type, borough), cnt) \<Rightarrow>
               ls @ [complaint_type @ '', '' @ borough @ '', '' @ str_int cnt]) =
        (\<lambda>ls x. ls @ [(\<lambda>((c, b), v). c @ '', '' @ b @ '', '' @ str_int v) x])"
    by (simp add: fun_eq_iff split: prod.splits)
  then show ?thesis
    unfolding output_lines_def by (simp only: foldl_snoc_map) simp
qed

lemma distinct_sorted_items: "distinct (map fst t) \<Longrightarrow> distinct (map fst (sorted_items t))"
proof -
  assume d: "distinct (map fst t)"
  have "mset (map fst (sorted_items t)) = mset (map fst t)"
    by (simp add: sorted_items_def)
  then show ?thesis using d by (metis distinct_count_atmost_1 mset_eq_setD set_mset_mset)
qed

section \<open>The count of a pair\<close>

text \<open>
  C1. When the input file is read through and \<^verbatim>\<open>filter_complaints\<close> returns its table,
  the count stored for a pair (complaint type, borough) is the number of rows whose
  creation date parses to a timestamp inside the inclusive window and whose trimmed
  complaint type and borough are the components of the pair and are not empty; a pair
  with no such row has no entry. The data lines of the output are one line per pair that
  has such a row, each showing that number.
\<close>

theorem count_per_pair:
  assumes "fs w input_file = Opened rows"
    and "filter_complaints w input_file start_date end_date = (tr, Return t)"
  shows "map_of t (c, b) =
           (if rows_for start_date end_date rows (c, b) = 0 then None
            else Some (rows_for start_date end_date rows (c, b)))
       \<and> tl (output_lines t) =
           map (\<lambda>((c, b), v). c @ '', '' @ b @ '', '' @ str_int (rows_for start_date end_date rows (c, b)))
               (sorted_items t)
       \<and> distinct (map fst (sorted_items t))
       \<and> set (map fst (sorted_items t)) = {k. 0 < rows_for start_date end_date rows k}"
proof -
  note run = filter_complaints_Return(1) [OF assms]
  note tab = for_rows_table [OF run]
  have item: "v = rows_for start_date end_date rows k" if "(k, v) \<in> set t" for k v
  proof -
    from that tab(2) have "map_of t k = Some v" by simp
    with tab(1) [of k] show ?thesis by (simp split: if_splits)
  qed
  have lines: "tl (output_lines t) =
           map (\<lambda>((c, b), v). c @ '', '' @ b @ '', '' @ str_int (rows_for start_date end_date rows (c, b)))
               (sorted_items t)"
    unfolding output_lines_eq list.sel
    by (rule map_cong) (auto simp: sorted_items_def dest: item)
  have dist: "distinct (map fst (sorted_items t))"
    using tab(2) by (rule distinct_sorted_items)
  have nonneg: "0 \<le> rows_for start_date end_date rows k" for k
    by (simp add: rows_for_def)
  have "k \<in> fst ` set t \<longleftrightarrow> 0 < rows_for start_date end_date rows k" for k
  proof -
    have "k \<in> fst ` set t \<longleftrightarrow> map_of t k \<noteq> None"
      by (simp add: map_of_eq_None_iff)
    also have "\<dots> \<longleftrightarrow> rows_for start_date end_date rows k \<noteq> 0"
      using tab(1) [of k] by simp
    also have "\<dots> \<longleftrightarrow> 0 < rows_for start_date end_date rows k"
      using nonneg [of k] by linarith
    finally show ?thesis .
  qed
  then have keys: "set (map fst (sorted_items t)) = {k. 0 < rows_for start_date end_date rows k}"
    unfolding sorted_items_def by (simp add: set_eq_iff)
  from tab(1) [of "(c, b)"] lines dist keys show ?thesis by blast
qed

theorem count_per_pair_witness:
  "fs (example_world example_rows) ''data.csv'' = Opened example_rows
   \<and> filter_complaints (example_world example_rows) ''data.csv'' jan_1 jan_31_end =
       ([OpenRead ''data.csv''],
        Return [((''Noise'', ''BRONX''), 2), ((''Noise'', ''BROOKLYN''), 1)])
   \<and> rows_for jan_1 jan_31_end example_rows (''Noise'', ''BRONX'') = 2
   \<and> rows_for jan_1 jan_31_end example_rows (''Noise'', ''QUEENS'') = 0"
proof -
  have h1: "fs (example_world example_rows) ''data.csv'' = Opened example_rows"
    by (simp add: example_world_def)
  have h2: "filter_complaints (example_world example_rows) ''data.csv'' jan_1 jan_31_end =
       ([OpenRead ''data.csv''],
        Return [((''Noise'', ''BRONX''), 2), ((''Noise'', ''BROOKLYN''), 1)])"
    by code_simp
  from count_per_pair [OF h1 h2, of "''Noise''" "''BRONX''"]
  have a: "rows_for jan_1 jan_31_end example_rows (''Noise'', ''BRONX'') = 2"
    by (simp split: if_splits)
  from count_per_pair [OF h1 h2, of "''Noise''" "''QUEENS''"]
  have b: "rows_for jan_1 jan_31_end example_rows (''Noise'', ''QUEENS'') = 0"
    by (simp split: if_splits)
  from h1 h2 a b show ?thesis by blast
qed

section \<open>The invariant of the count table\<close>

lemma for_rows_append:
  "for_rows s e (xs @ ys) t =
     (case for_rows s e xs t of Inl x \<Rightarrow> Inl x | Inr t1 \<Rightarrow> for_rows s e ys t1)"
proof (induction xs arbitrary: t)
  case Nil
  then show ?case by simp
next
  case (Cons ev xs)
  then show ?case by (cases ev) (simp_all split: sum.splits)
qed

lemma loop_body_step:
  assumes "loop_body s e r t = Inr t'"
  shows "t' = t \<or> (\<exists>k. t' = increment t k)"
  using loop_body_cases [OF assms] by blast

text \<open>
  C9. After any number of iterations of the loop (the table reached on a prefix of the
  rows), every key of the table has a count of at least 1 and occurs once. An iteration
  leaves the table as it is or is one increment, which stores the previous count plus one
  under its key, 1 for a key that was absent: no entry is created in any other way and
  none is removed. The states are those between the statements of the program: inside
  the increment, the dictionary's default 0 is stored and at once replaced.
\<close>

theorem counts_at_least_one:
  assumes "for_rows start_date end_date (take n rows) [] = Inr t"
  shows "counts_positive t \<and> distinct (map fst t)
       \<and> (\<forall>r t'. loop_body start_date end_date r t = Inr t' \<longrightarrow>
             t' = t \<or> (\<exists>k. t' = increment t k \<and> map_of t' = (map_of t)(k \<mapsto> lookup0 t k + 1)))"
proof -
  have step: "t' = t \<or> (\<exists>k. t' = increment t k \<and> map_of t' = (map_of t)(k \<mapsto> lookup0 t k + 1))"
    if "loop_body start_date end_date r t = Inr t'" for r t'
    using loop_body_step [OF that] map_of_increment by blast
  from for_rows_invariant [OF assms] have "counts_positive t" "distinct (map fst t)"
    by (simp_all add: counts_positive_def)
  with step show ?thesis by blast
qed

theorem counts_at_least_one_witness:
  "for_rows jan_1 jan_31_end (take 3 example_rows) [] =
      Inr [((''Noise'', ''BRONX''), 2), ((''Noise'', ''BROOKLYN''), 1)]
   \<and> counts_positive [((''Noise'', ''BRONX''), 2), ((''Noise'', ''BROOKLYN''), 1)]"
proof -
  have h: "for_rows jan_1 jan_31_end (take 3 example_rows) [] =
      Inr [((''Noise'', ''BRONX''), 2), ((''Noise'', ''BROOKLYN''), 1)]"
    by code_simp
  from counts_at_least_one [OF h] h show ?thesis by blast
qed

section \<open>The command line\<close>

text \<open>
  C6. When both dates parse as MM/DD/YYYY and the start is later than the end date moved
  to the end of its day, the run writes one message to the error stream and exits with
  status 1, whatever the files are: the input file is not opened and nothing reaches the
  output stream or an output file.
\<close>

theorem start_after_end_rejected:
  assumes "strptime_mdY (PStr (arg_start a)) = Inr start_date"
    and "strptime_mdY (PStr (arg_end a)) = Inr end_date"
    and "dt_less (end_of_day end_date) start_date"
  shows "main w a = ([Stderr (''Error: Start date must be before or equal to end date'' @ nl)], 1)
       \<and> emitted (fst (main w a)) = []
       \<and> (\<forall>p. OpenRead p \<notin> set (fst (main w a)))"
  using assms by (simp add: main_def parse_window_def emitted_def)

theorem start_after_end_rejected_witness:
  "strptime_mdY (PStr (arg_start (example_args ''data.csv'' ''02/01/2024'' ''01/31/2024''))) =
      Inr \<lparr>year = 2024, month = 2, day = 1, hour = 0, minute = 0, second = 0\<rparr>
   \<and> main (example_world example_rows) (example_args ''data.csv'' ''02/01/2024'' ''01/31/2024'') =
      ([Stderr (''Error: Start date must be before or equal to end date'' @ nl)], 1)"
proof -
  let ?a = "example_args ''data.csv'' ''02/01/2024'' ''01/31/2024''"
  have h1: "strptime_mdY (PStr (arg_start ?a)) =
      Inr \<lparr>year = 2024, month = 2, day = 1, hour = 0, minute = 0, second = 0\<rparr>"
    by code_simp
  have h2: "strptime_mdY (PStr (arg_end ?a)) =
      Inr \<lparr>year = 2024, month = 1, day = 31, hour = 0, minute = 0, second = 0\<rparr>"
    by code_simp
  have h3: "dt_less (end_of_day \<lparr>year = 2024, month = 1, day = 31, hour = 0, minute = 0, second = 0\<rparr>)
       \<lparr>year = 2024, month = 2, day = 1, hour = 0, minute = 0, second = 0\<rparr>"
    by code_simp
  from start_after_end_rejected [OF h1 h2 h3, of "example_world example_rows"] h1
  show ?thesis by blast
qed

section \<open>An input that cannot be read\<close>

lemma for_rows_Raises:
  "list_ex (\<lambda>ev. case ev of Raises e \<Rightarrow> True | Row r \<Rightarrow> False) rows \<Longrightarrow>
     \<exists>x. for_rows s e rows t = Inl x"
proof (induction rows arbitrary: t)
  case Nil
  then show ?case by simp
next
  case (Cons ev rows)
  then show ?case by (cases ev) (auto split: sum.splits)
qed

lemma read_failed_exit:
  "snd (read_failed p x) = Exit 1 \<and> emitted (fst (read_failed p x)) = []
     \<and> errors (fst (read_failed p x)) \<noteq> []"
  by (simp add: read_failed_def emitted_def errors_def)

lemma filter_complaints_unreadable:
  assumes "unreadable (fs w p)"
  shows "\<exists>x. filter_complaints w p s e = read_failed p x"
proof (cases "fs w p")
  case (OpenRaises x)
  then have "filter_complaints w p s e = read_failed p x"
    by (simp add: filter_complaints_def)
  then show ?thesis ..
next
  case (Opened rows)
  with assms for_rows_Raises [of rows s e "[]"]
  obtain x where "for_rows s e rows [] = Inl x"
    by (auto simp: unreadable_def)
  with Opened have "filter_complaints w p s e = read_failed p x"
    by (simp add: filter_complaints_def)
  then show ?thesis ..
qed

text \<open>
  C8. When the input path cannot be opened, or the reader raises while the file is read,
  the run exits with status 1, writes to the error stream, and nothing reaches the output
  stream or an output file.
\<close>

theorem unreadable_input_fails:
  assumes "unreadable (fs w (arg_input a))"
  shows "snd (main w a) = 1 \<and> emitted (fst (main w a)) = [] \<and> errors (fst (main w a)) \<noteq> []"
proof (cases "parse_window a")
  case None
  then show ?thesis by (simp add: main_def emitted_def errors_def)
next
  case (Some win)
  obtain s e where win: "win = (s, e)" by (cases win)
  show ?thesis
  proof (cases "dt_less e s")
    case True
    with Some win show ?thesis by (simp add: main_def emitted_def errors_def)
  next
    case False
    from filter_complaints_unreadable [OF assms, of s e]
    obtain x where fc: "filter_complaints w (arg_input a) s e = read_failed (arg_input a) x" ..
    obtain tr where rf: "read_failed (arg_input a) x = (tr, Exit 1)"
      using read_failed_exit [of "arg_input a" x] by (cases "read_failed (arg_input a) x") auto
    with read_failed_exit [of "arg_input a" x]
    have "emitted tr = []" "errors tr \<noteq> []" by simp_all
    with Some win False fc rf show ?thesis by (simp add: main_def)
  qed
qed

theorem unreadable_input_fails_witness:
  "unreadable (fs (example_world example_rows) (arg_input (example_args ''missing.csv'' ''01/01/2024'' ''01/31/2024'')))
   \<and> snd (main (example_world example_rows) (example_args ''missing.csv'' ''01/01/2024'' ''01/31/2024'')) = 1
   \<and> errors (fst (main (example_world example_rows) (example_args ''missing.csv'' ''01/01/2024'' ''01/31/2024''))) =
       [''Error: File '' @ [CHR 0x27] @ ''missing.csv'' @ [CHR 0x27] @ '' not found.'' @ nl]"
proof -
  let ?w = "example_world example_rows"
  let ?a = "example_args ''missing.csv'' ''01/01/2024'' ''01/31/2024''"
  have h: "unreadable (fs ?w (arg_input ?a))"
    by (simp add: unreadable_def example_world_def example_args_def)
  have e: "errors (fst (main ?w ?a)) =
       [''Error: File '' @ [CHR 0x27] @ ''missing.csv'' @ [CHR 0x27] @ '' not found.'' @ nl]"
    by code_simp
  from unreadable_input_fails [OF h] h e show ?thesis by blast
qed

section \<open>A run that counts nothing\<close>

lemma for_rows_none_counted:
  assumes "for_rows s e rows [] = Inr t"
    and "\<forall>ev \<in> set rows. \<forall>k. \<not> row_counts_for s e k ev"
  shows "t = []"
proof -
  have "rows_for s e rows k = 0" for k
  proof -
    from assms(2) have "\<forall>ev \<in> set rows. \<not> row_counts_for s e k ev" by blast
    then show ?thesis by (simp add: rows_for_def filter_empty_conv)
  qed
  with for_rows_table(1) [OF assms(1)] have "map_of t k = None" for k by simp
  then have "map_of t = Map.empty" by (simp add: fun_eq_iff)
  then show ?thesis by (simp only: map_of_eq_empty_iff)
qed

lemma output_text_empty: "py_join nl (output_lines []) @ nl = header_text"
  by (simp add: output_lines_def sorted_items_def header_text_def)

text \<open>
  C10, amended. With valid dates, start not after end, an input file that opens and is
  read through without an exception, no row that belongs to any pair (an input with only
  the header row has no rows at all), and an output path that, when one is given, can be
  written, the run exits with status 0 and its whole output is the header line: on the
  output stream, or in the output file.
\<close>

theorem header_only_when_nothing_counted:
  assumes "parse_window a = Some (start_date, end_date)"
    and "\<not> dt_less end_date start_date"
    and "fs w (arg_input a) = Opened rows"
    and "for_rows start_date end_date rows [] = Inr t"
    and "\<forall>ev \<in> set rows. \<forall>k. \<not> row_counts_for start_date end_date k ev"
    and "\<forall>p. arg_output a = Some p \<longrightarrow> write_raises w p = None"
  shows "main w a =
          ([OpenRead (arg_input a),
            (case arg_output a of
               None \<Rightarrow> Stdout header_text
             | Some p \<Rightarrow> if p = [] then Stdout header_text else WriteFile p header_text)],
           0)"
proof -
  from for_rows_none_counted [OF assms(4,5)] have t: "t = []" .
  with assms(3,4) have fc: "filter_complaints w (arg_input a) start_date end_date =
      ([OpenRead (arg_input a)], Return [])"
    by (simp add: filter_complaints_def)
  show ?thesis
  proof (cases "arg_output a")
    case None
    with assms(1,2) fc show ?thesis
      by (simp add: main_def output_results_def output_text_empty Let_def)
  next
    case (Some p)
    with assms(6) have "write_raises w p = None" by simp
    with Some assms(1,2) fc show ?thesis
      by (simp add: main_def output_results_def output_text_empty Let_def)
  qed
qed

theorem header_only_when_nothing_counted_witness:
  "main (example_world [Row (example_row ''03/05/2024 09:00:00 AM'' ''Noise'' ''BRONX'')])
        (example_args ''data.csv'' ''01/01/2024'' ''01/31/2024'') =
     ([OpenRead ''data.csv'', Stdout (''complaint type, borough, count'' @ nl)], 0)
   \<and> main (example_world []) (example_args ''data.csv'' ''01/01/2024'' ''01/31/2024'') =
     ([OpenRead ''data.csv'', Stdout (''complaint type, borough, count'' @ nl)], 0)"
proof -
  let ?a = "example_args ''data.csv'' ''01/01/2024'' ''01/31/2024''"
  let ?rows = "[Row (example_row ''03/05/2024 09:00:00 AM'' ''Noise'' ''BRONX'')]"
  have h1: "parse_window ?a = Some (jan_1, jan_31_end)" by code_simp
  have h2: "\<not> dt_less jan_31_end jan_1" by code_simp
  have h3: "fs (example_world rs) (arg_input ?a) = Opened rs" for rs
    by (simp add: example_world_def example_args_def)
  have h4: "for_rows jan_1 jan_31_end ?rows [] = Inr []" by code_simp
  have h4': "for_rows jan_1 jan_31_end [] [] = Inr []" by simp
  have d: "parse_date (row_get (example_row ''03/05/2024 09:00:00 AM'' ''Noise'' ''BRONX'') ''Created Date'')
      = Inr (Some \<lparr>year = 2024, month = 3, day = 5, hour = 9, minute = 0, second = 0\<rparr>)"
    by code_simp
  have w: "\<not> in_window jan_1 jan_31_end \<lparr>year = 2024, month = 3, day = 5, hour = 9, minute = 0, second = 0\<rparr>"
    by code_simp
  have h5: "\<forall>ev \<in> set ?rows. \<forall>k. \<not> row_counts_for jan_1 jan_31_end k ev"
    using d w by (simp add: row_counts_for_def)
  have h5': "\<forall>ev \<in> set []. \<forall>k. \<not> row_counts_for jan_1 jan_31_end k ev" by simp
  have h6: "\<forall>p. arg_output ?a = Some p \<longrightarrow> write_raises (example_world rs) p = None" for rs
    by (simp add: example_args_def)
  have o: "arg_output ?a = None" "arg_input ?a = ''data.csv''" by (simp_all add: example_args_def)
  from header_only_when_nothing_counted [OF h1 h2 h3 h4 h5 h6]
       header_only_when_nothing_counted [OF h1 h2 h3 h4' h5' h6]
  show ?thesis by (simp add: o header_text_def)
qed

text \<open>
  C10 as stated fails: the input opens and no row survives the filter, yet the run exits
  with status 1 and emits nothing, when the output file cannot be written (the handler of
  \<^verbatim>\<open>output_results\<close>), and when the reader raises at the only row (the handler of
  \<^verbatim>\<open>filter_complaints\<close>).
\<close>

theorem nothing_counted_yet_exit_1:
  "main (unwritable_world [])
        (example_args_out ''data.csv'' ''01/01/2024'' ''01/31/2024'' ''out.csv'') =
     ([OpenRead ''data.csv'',
       Stderr (''Error writing to file: [Errno 13] Permission denied: ''
                 @ [CHR 0x27] @ ''out.csv'' @ [CHR 0x27] @ nl)], 1)
   \<and> main (example_world reader_fails_rows)
          (example_args ''data.csv'' ''01/01/2024'' ''01/31/2024'') =
     ([OpenRead ''data.csv'',
       Stderr (''Error reading file: field larger than field limit (131072)'' @ nl)], 1)"
  by code_simp

section \<open>The format of the output\<close>

lemma digit_not_space: "is_digit c \<Longrightarrow> \<not> py_isspace c"
  by (auto simp: is_digit_def py_isspace_def Let_def)

lemma str_nat_digits: "str_nat n \<noteq> [] \<and> list_all is_digit (str_nat n)"
proof (induction n rule: str_nat.induct)
  case (1 n)
  show ?case
  proof (cases "n < 10")
    case True
    then show ?thesis by (subst (1 2) str_nat.simps) (simp add: is_digit_def)
  next
    case False
    have "n mod 10 < 10" by simp
    then have "is_digit (char_of (48 + n mod 10))"
      by (simp add: is_digit_def) 
    with 1 False show ?thesis by (subst (1 2) str_nat.simps) simp
  qed
qed

lemma str_nat_value: "foldl (\<lambda>a c. 10 * a + digit_val c) 0 (str_nat n) = int n"
proof (induction n rule: str_nat.induct)
  case (1 n)
  show ?case
  proof (cases "n < 10")
    case True
    then show ?thesis by (subst str_nat.simps) (simp add: digit_val_def)
  next
    case False
    have "n mod 10 < 10" by simp
    then have "digit_val (char_of (48 + n mod 10)) = int (n mod 10)"
      by (simp add: digit_val_def)
    moreover have "10 * int (n div 10) + int (n mod 10) = int n"
      by (simp add: zdiv_int zmod_int)
    ultimately show ?thesis using 1 False by (subst str_nat.simps) simp
  qed
qed

lemma strip_digits: "list_all is_digit s \<Longrightarrow> py_strip s = s"
proof -
  assume d: "list_all is_digit s"
  have a: "dropWhile py_isspace s = s"
    using d by (cases s) (auto simp: digit_not_space)
  have "list_all is_digit (rev s)" using d by (simp add: list_all_iff)
  then have b: "dropWhile py_isspace (rev s) = rev s"
    by (cases "rev s") (auto simp: digit_not_space)
  from a b show ?thesis by (simp add: py_strip_def)
qed

lemma str_int_exact: "0 \<le> v \<Longrightarrow> py_int (str_int v) = Some v"
  using str_nat_digits [of "nat v"] str_nat_value [of "nat v"]
  by (simp add: py_int_def str_int_def strip_digits Let_def)

lemma mset_sorted_items: "mset (sorted_items t) = mset t"
  by (simp add: sorted_items_def)

text \<open>
  C7. For every count table (a dictionary: each key once), the first line of the output is
  \<^verbatim>\<open>complaint type, borough, count\<close>, and the lines after it are, for the items in
  sorted order, the complaint type, the borough and the count joined by comma and space,
  the two fields as they are; every key of the table has exactly one line, and a count is
  written as the decimal numeral that reads back as the same number.
\<close>

theorem output_format:
  assumes "distinct (map fst t)"
  shows "hd (output_lines t) = ''complaint type, borough, count''
       \<and> tl (output_lines t) =
           map (\<lambda>((c, b), v). c @ '', '' @ b @ '', '' @ str_int v) (sorted_items t)
       \<and> mset (sorted_items t) = mset t
       \<and> distinct (map fst (sorted_items t))
       \<and> (\<forall>(k, v) \<in> set t. 0 \<le> v \<longrightarrow> py_int (str_int v) = Some v)"
  using distinct_sorted_items [OF assms]
  by (auto simp: output_lines_eq mset_sorted_items str_int_exact)

theorem output_format_witness:
  "distinct (map fst comma_rows)
   \<and> output_lines comma_rows =
       [''complaint type, borough, count'', ''Heat, QUEENS, 3'', ''Noise, loud, BRONX, 12'']"
proof -
  have h: "distinct (map fst comma_rows)" by (simp add: comma_rows_def)
  have s: "sorted_items comma_rows = [((''Heat'', ''QUEENS''), 3), ((''Noise, loud'', ''BRONX''), 12)]"
    by code_simp
  have n: "str_int 3 = ''3''" "str_int 12 = ''12''" by code_simp+
  from output_format [OF h]
  have "hd (output_lines comma_rows) = ''complaint type, borough, count''"
    and "tl (output_lines comma_rows) = [''Heat, QUEENS, 3'', ''Noise, loud, BRONX, 12'']"
    by (simp_all add: s n)
  then have "output_lines comma_rows =
       [''complaint type, borough, count'', ''Heat, QUEENS, 3'', ''Noise, loud, BRONX, 12'']"
    by (cases "output_lines comma_rows") (simp_all add: output_lines_eq)
  with h show ?thesis by blast
qed

section \<open>The end of the window\<close>

lemma datetime_new_fields:
  "datetime_new y m d H M S = Inr t \<Longrightarrow>
     year t = y \<and> month t = m \<and> day t = d \<and> hour t = H \<and> minute t = M \<and> second t = S
     \<and> H \<le> 23 \<and> M \<le> 59 \<and> S \<le> 59"
  by (auto simp: datetime_new_def split: if_splits)

lemma strptime_mdY_midnight:
  "strptime_mdY v = Inr t \<Longrightarrow> hour t = 0 \<and> minute t = 0 \<and> second t = 0"
  by (auto simp: strptime_mdY_def no_match_def unconverted_def
      split: pyval.splits list.splits prod.splits if_splits option.splits
      dest!: datetime_new_fields)

lemma strptime_mdY_IMSp_fields:
  "strptime_mdY_IMSp v = Inr t \<Longrightarrow> hour t \<le> 23 \<and> minute t \<le> 59 \<and> second t \<le> 59"
  by (auto simp: strptime_mdY_IMSp_def no_match_def unconverted_def
      split: pyval.splits list.splits prod.splits if_splits option.splits
      dest!: datetime_new_fields)

lemma parse_date_fields:
  "parse_date v = Inr (Some t) \<Longrightarrow> hour t \<le> 23 \<and> minute t \<le> 59 \<and> second t \<le> 59"
  using strptime_mdY_IMSp_fields [of v t]
  by (auto simp: parse_date_def split: sum.splits if_splits)

text \<open>
  C4. The upper bound of the window is the end date of the command line at 23:59:59, and a
  parsed timestamp is rejected by it exactly when its calendar day is after that day: the
  bound is inclusive. With the end date 01/31/2024, the row timestamped
  \<^verbatim>\<open>01/31/2024 11:59:59 PM\<close> is counted and the row timestamped
  \<^verbatim>\<open>02/01/2024 12:00:00 AM\<close> is not.
\<close>

theorem end_of_day_inclusive:
  assumes "parse_window a = Some (start_date, end_date)"
    and "parse_date created = Inr (Some t)"
  shows "(\<exists>end_day. strptime_mdY (PStr (arg_end a)) = Inr end_day
            \<and> end_date = end_day\<lparr>hour := 23, minute := 59, second := 59\<rparr>)
       \<and> (dt_less end_date t \<longleftrightarrow>
            (year end_date, month end_date, day end_date) < (year t, month t, day t))
       \<and> main (example_world boundary_rows) (example_args ''data.csv'' ''01/01/2024'' ''01/31/2024'') =
           ([OpenRead ''data.csv'',
             Stdout (''complaint type, borough, count'' @ nl @ ''Noise, BRONX, 1'' @ nl)], 0)"
proof -
  from assms(1) obtain end_day where
    e: "strptime_mdY (PStr (arg_end a)) = Inr end_day" "end_date = end_of_day end_day"
    by (auto simp: parse_window_def split: sum.splits)
  then have bound: "hour end_date = 23" "minute end_date = 59" "second end_date = 59"
    by (simp_all add: end_of_day_def)
  from parse_date_fields [OF assms(2)]
  have t: "hour t \<le> 23" "minute t \<le> 59" "second t \<le> 59" by simp_all
  have cmp: "dt_less end_date t \<longleftrightarrow>
            (year end_date, month end_date, day end_date) < (year t, month t, day t)"
    using bound t by (auto simp: dt_less_def dt_key_def)
  have run: "main (example_world boundary_rows) (example_args ''data.csv'' ''01/01/2024'' ''01/31/2024'') =
           ([OpenRead ''data.csv'',
             Stdout (''complaint type, borough, count'' @ nl @ ''Noise, BRONX, 1'' @ nl)], 0)"
    by code_simp
  from e cmp run show ?thesis by (auto simp: end_of_day_def)
qed

theorem end_of_day_inclusive_witness:
  "parse_window (example_args ''data.csv'' ''01/01/2024'' ''01/31/2024'') = Some (jan_1, jan_31_end)
   \<and> parse_date (PStr ''01/31/2024 11:59:59 PM'') = Inr (Some jan_31_end)
   \<and> \<not> dt_less jan_31_end jan_31_end
   \<and> parse_date (PStr ''02/01/2024 12:00:00 AM'') =
        Inr (Some \<lparr>year = 2024, month = 2, day = 1, hour = 0, minute = 0, second = 0\<rparr>)
   \<and> dt_less jan_31_end \<lparr>year = 2024, month = 2, day = 1, hour = 0, minute = 0, second = 0\<rparr>"
proof -
  let ?a = "example_args ''data.csv'' ''01/01/2024'' ''01/31/2024''"
  let ?feb = "\<lparr>year = 2024, month = 2, day = 1, hour = 0, minute = 0, second = 0\<rparr>"
  have h1: "parse_window ?a = Some (jan_1, jan_31_end)" by code_simp
  have h2: "parse_date (PStr ''01/31/2024 11:59:59 PM'') = Inr (Some jan_31_end)" by code_simp
  have h3: "parse_date (PStr ''02/01/2024 12:00:00 AM'') = Inr (Some ?feb)" by code_simp
  from end_of_day_inclusive [OF h1 h2] have a: "\<not> dt_less jan_31_end jan_31_end" by simp
  from end_of_day_inclusive [OF h1 h3] have b: "dt_less jan_31_end ?feb"
    by (simp add: jan_31_end_def)
  from h1 h2 h3 a b show ?thesis by blast
qed

section \<open>The date parser on a missing value\<close>

text \<open>
  C5. On every string \<^verbatim>\<open>parse_date\<close> returns a timestamp or \<^verbatim>\<open>None\<close>
  (\<open>parse_date_str\<close>). On the value \<^verbatim>\<open>None\<close>, which the reader delivers for a field
  missing from a short row, \<^verbatim>\<open>strptime\<close> raises \<^verbatim>\<open>TypeError\<close>, which
  \<^verbatim>\<open>parse_date\<close> does not catch: the exception leaves the function, and the run ends
  with status 1 instead of skipping the row.
\<close>

theorem parse_date_none_raises:
  "parse_date PNone = Inl (TypeError, ''strptime() argument 1 must be str, not None'')
   \<and> main (example_world [Row short_row, Row (example_row ''01/05/2024 09:15:00 AM'' ''Noise'' ''BRONX'')])
          (example_args ''data.csv'' ''01/01/2024'' ''01/31/2024'') =
       ([OpenRead ''data.csv'',
         Stderr (''Error reading file: strptime() argument 1 must be str, not None'' @ nl)], 1)"
  by code_simp

section \<open>Rows with a defect\<close>

lemma loop_body_str_fields:
  assumes "str_fields r"
  shows "\<exists>t'. loop_body s e r t = Inr t'"
proof -
  from assms obtain ds cs bs where
    f: "row_get r ''Created Date'' = PStr ds" "row_get r ''Complaint Type'' = PStr cs"
       "row_get r ''Borough'' = PStr bs"
    unfolding str_fields_def by (metis pyval.exhaust)
  from parse_date_str [of ds] obtain pd where "parse_date (PStr ds) = Inr pd" ..
  with f show ?thesis
    by (simp add: loop_body_def strip_method_def split: option.splits)
qed

lemma loop_body_defect:
  assumes "str_fields r" and "row_defect s e r"
  shows "loop_body s e r t = Inr t"
proof -
  from assms(1) obtain ds cs bs where
    f: "row_get r ''Created Date'' = PStr ds" "row_get r ''Complaint Type'' = PStr cs"
       "row_get r ''Borough'' = PStr bs"
    unfolding str_fields_def by (metis pyval.exhaust)
  from parse_date_str [of ds] obtain pd where pd: "parse_date (PStr ds) = Inr pd" ..
  with f assms(2) show ?thesis
    by (auto simp: loop_body_def strip_method_def row_defect_def is_blank_def in_window_def
        dt_less_def not_less split: option.splits)
qed

lemma for_rows_str_fields:
  "\<forall>ev \<in> set rows. case ev of Row r \<Rightarrow> str_fields r | Raises x \<Rightarrow> False \<Longrightarrow>
     \<exists>t'. for_rows s e rows t = Inr t'"
proof (induction rows arbitrary: t)
  case Nil
  then show ?case by simp
next
  case (Cons ev rows)
  show ?case
  proof (cases ev)
    case (Raises x)
    with Cons.prems show ?thesis by simp
  next
    case (Row r)
    with Cons.prems have "str_fields r" by simp
    from loop_body_str_fields [OF this, of s e t] obtain t1 where "loop_body s e r t = Inr t1" ..
    with Row Cons.IH [of t1] Cons.prems show ?thesis by simp
  qed
qed

text \<open>
  C3, amended. A row whose creation date, complaint type and borough are strings and that
  has a defect (a date that does not parse, a timestamp outside the window, a blank
  complaint type or borough) is only skipped: the iteration leaves the table as it is, and
  the run over the rows is the run over the rows without it. Rows whose three fields are
  strings never end the loop with an exception. An exception of the reader itself ends
  the loop at once.
\<close>

theorem defective_row_only_skipped:
  assumes "str_fields r" and "row_defect start_date end_date r"
  shows "loop_body start_date end_date r t = Inr t
       \<and> for_rows start_date end_date (before @ Row r # after) t0 =
           for_rows start_date end_date (before @ after) t0
       \<and> ((\<forall>ev \<in> set rows. case ev of Row r' \<Rightarrow> str_fields r' | Raises x \<Rightarrow> False) \<longrightarrow>
            (\<exists>t'. for_rows start_date end_date rows t0 = Inr t'))
       \<and> for_rows start_date end_date (Raises x # after) t0 = Inl x"
proof -
  have skip: "loop_body start_date end_date r t1 = Inr t1" for t1
    using assms by (rule loop_body_defect)
  have "for_rows start_date end_date (before @ Row r # after) t0 =
           for_rows start_date end_date (before @ after) t0"
    by (simp add: for_rows_append skip split: sum.splits)
  with skip for_rows_str_fields [of rows start_date end_date t0] show ?thesis by simp
qed

theorem defective_row_only_skipped_witness:
  "str_fields (example_row ''not a date'' ''Noise'' ''BRONX'')
   \<and> row_defect jan_1 jan_31_end (example_row ''not a date'' ''Noise'' ''BRONX'')
   \<and> for_rows jan_1 jan_31_end
        ([Row (example_row ''01/05/2024 09:15:00 AM'' ''Noise'' ''BRONX'')]
          @ Row (example_row ''not a date'' ''Noise'' ''BRONX'')
          # [Row (example_row ''01/06/2024 09:15:00 AM'' ''Noise'' ''BRONX'')]) [] =
      Inr [((''Noise'', ''BRONX''), 2)]"
proof -
  let ?r = "example_row ''not a date'' ''Noise'' ''BRONX''"
  have h1: "str_fields ?r" by (simp add: str_fields_def example_row_def row_get_def)
  have "parse_date (row_get ?r ''Created Date'') = Inr None" by code_simp
  then have h2: "row_defect jan_1 jan_31_end ?r" by (simp add: row_defect_def)
  have e: "for_rows jan_1 jan_31_end
        ([Row (example_row ''01/05/2024 09:15:00 AM'' ''Noise'' ''BRONX'')]
          @ [Row (example_row ''01/06/2024 09:15:00 AM'' ''Noise'' ''BRONX'')]) [] =
      Inr [((''Noise'', ''BRONX''), 2)]"
    by code_simp
  from defective_row_only_skipped [OF h1 h2,
      of _ "[Row (example_row ''01/05/2024 09:15:00 AM'' ''Noise'' ''BRONX'')]"
         "[Row (example_row ''01/06/2024 09:15:00 AM'' ''Noise'' ''BRONX'')]" "[]"] e h1 h2
  show ?thesis by simp
qed

text \<open>
  C3 as stated fails: a row on which the reader raises (here a field above the csv
  module's size limit) ends the run with status 1, and the good row after it is never
  processed.
\<close>

theorem malformed_row_ends_run:
  "main (example_world oversize_rows) (example_args ''data.csv'' ''01/01/2024'' ''01/31/2024'') =
     ([OpenRead ''data.csv'',
       Stderr (''Error reading file: field larger than field limit (131072)'' @ nl)], 1)"
  by code_simp

section \<open>The order of the output\<close>

lemma loop_body_raises_any_table:
  "loop_body s e r t = Inl x \<Longrightarrow> loop_body s e r t' = Inl x"
  by (auto simp: loop_body_def split: sum.splits option.splits if_splits)

lemma loop_body_raises_at:
  "(\<exists>x. loop_body s e r t = Inl x) \<longleftrightarrow> raises_at s e (Row r)"
proof
  assume "\<exists>x. loop_body s e r t = Inl x"
  then obtain x where "loop_body s e r t = Inl x" ..
  from loop_body_raises_any_table [OF this, of "[]"] show "raises_at s e (Row r)"
    by (simp add: raises_at_def)
next
  assume "raises_at s e (Row r)"
  then obtain x where "loop_body s e r [] = Inl x"
    by (auto simp: raises_at_def split: sum.splits)
  from loop_body_raises_any_table [OF this, of t] show "\<exists>x. loop_body s e r t = Inl x" ..
qed

lemma for_rows_raises_iff:
  "(\<exists>x. for_rows s e rows t = Inl x) \<longleftrightarrow> (\<exists>ev \<in> set rows. raises_at s e ev)"
proof (induction rows arbitrary: t)
  case Nil
  then show ?case by simp
next
  case (Cons ev rows)
  show ?case
  proof (cases ev)
    case (Raises x)
    then show ?thesis by (simp add: raises_at_def)
  next
    case (Row r)
    show ?thesis
    proof (cases "loop_body s e r t")
      case (Inl x)
      then have "raises_at s e (Row r)" using loop_body_raises_at [of s e r t] by blast
      with Inl Row show ?thesis by simp
    next
      case (Inr t1)
      then have "\<not> raises_at s e (Row r)" using loop_body_raises_at [of s e r t] by simp
      with Inr Row Cons.IH [of t1] show ?thesis by simp
    qed
  qed
qed

lemma rows_for_mset:
  assumes "mset rows1 = mset rows2"
  shows "rows_for s e rows1 k = rows_for s e rows2 k"
proof -
  have "length (filter P xs) = size (filter_mset P (mset xs))" for P and xs :: "read_event list"
    by (metis mset_filter size_mset)
  with assms show ?thesis by (simp add: rows_for_def)
qed

lemma sorted_items_unique:
  assumes "distinct (map fst t1)" and "distinct (map fst t2)" and "map_of t1 = map_of t2"
  shows "sorted_items t1 = sorted_items t2"
proof -
  let ?f = "\<lambda>x :: key \<times> int. (fst (fst x), snd (fst x))"
  from assms have "set t1 = set t2" by (simp add: map_of_inject_set)
  moreover from assms(1,2) have "distinct t1" "distinct t2" by (simp_all add: distinct_map)
  ultimately have m: "mset t1 = mset (sort_key ?f t2)"
    by (simp add: set_eq_iff_mset_eq_distinct)
  have f: "?f = fst" by (simp add: fun_eq_iff)
  from assms(1) have i: "inj_on ?f (set t1)" unfolding f by (simp add: distinct_map)
  have "sort_key ?f t1 = sort_key ?f t2"
    using m i by (rule sort_key_inj_key_eq) simp
  then show ?thesis by (simp add: sorted_items_def)
qed

lemma output_lines_sorted_items:
  "sorted_items t1 = sorted_items t2 \<Longrightarrow> output_lines t1 = output_lines t2"
  by (simp add: output_lines_def)

lemma strict_sorted_items:
  assumes "distinct (map fst t)"
  shows "sorted_wrt (<) (map fst (sorted_items t))"
proof -
  let ?f = "\<lambda>x :: key \<times> int. (fst (fst x), snd (fst x))"
  have f: "?f = fst" by (simp add: fun_eq_iff)
  have "sorted (map ?f (sort_key ?f t))" by (rule sorted_sort_key)
  then have "sorted (map fst (sorted_items t))" unfolding sorted_items_def f .
  with distinct_sorted_items [OF assms] show ?thesis by (simp add: strict_sorted_iff)
qed

lemma for_rows_permuted:
  assumes "mset rows1 = mset rows2"
  shows "(\<exists>x1 x2. for_rows s e rows1 [] = Inl x1 \<and> for_rows s e rows2 [] = Inl x2)
       \<or> (\<exists>t1 t2. for_rows s e rows1 [] = Inr t1 \<and> for_rows s e rows2 [] = Inr t2
              \<and> output_lines t1 = output_lines t2)"
proof (cases "for_rows s e rows1 []")
  case (Inl x1)
  from assms have "set rows1 = set rows2" by (rule mset_eq_setD)
  with Inl for_rows_raises_iff [of s e rows1 "[]"] for_rows_raises_iff [of s e rows2 "[]"]
  obtain x2 where "for_rows s e rows2 [] = Inl x2" by auto
  with Inl show ?thesis by simp
next
  case (Inr t1)
  from assms have "set rows1 = set rows2" by (rule mset_eq_setD)
  with Inr for_rows_raises_iff [of s e rows1 "[]"] for_rows_raises_iff [of s e rows2 "[]"]
  have "\<not> (\<exists>x. for_rows s e rows2 [] = Inl x)" by auto
  then obtain t2 where t2: "for_rows s e rows2 [] = Inr t2"
    by (cases "for_rows s e rows2 []") auto
  have "map_of t1 k = map_of t2 k" for k
    using for_rows_table(1) [OF Inr, of k] for_rows_table(1) [OF t2, of k]
      rows_for_mset [OF assms, of s e k] by simp
  then have "map_of t1 = map_of t2" by (simp add: fun_eq_iff)
  with for_rows_table(2) [OF Inr] for_rows_table(2) [OF t2]
  have "sorted_items t1 = sorted_items t2" by (rule sorted_items_unique)
  then have "output_lines t1 = output_lines t2" by (rule output_lines_sorted_items)
  with Inr t2 show ?thesis by simp
qed

lemma emitted_read_failed: "emitted (fst (read_failed p x)) = [] \<and> snd (read_failed p x) = Exit 1"
  by (simp add: read_failed_def emitted_def)

lemma main_permuted:
  assumes "fs w1 (arg_input a) = Opened rows1" and "fs w2 (arg_input a) = Opened rows2"
    and "mset rows1 = mset rows2" and "write_raises w1 = write_raises w2"
  shows "emitted (fst (main w1 a)) = emitted (fst (main w2 a)) \<and> snd (main w1 a) = snd (main w2 a)"
proof (cases "parse_window a")
  case None
  then show ?thesis by (simp add: main_def)
next
  case (Some win)
  obtain s e where win: "win = (s, e)" by (cases win)
  show ?thesis
  proof (cases "dt_less e s")
    case True
    with Some win show ?thesis by (simp add: main_def)
  next
    case False
    from for_rows_permuted [OF assms(3), of s e] show ?thesis
    proof (elim disjE exE conjE)
      fix x1 x2
      assume r: "for_rows s e rows1 [] = Inl x1" "for_rows s e rows2 [] = Inl x2"
      obtain tr1 where f1: "read_failed (arg_input a) x1 = (tr1, Exit 1)" "emitted tr1 = []"
        using emitted_read_failed [of "arg_input a" x1]
        by (cases "read_failed (arg_input a) x1") auto
      obtain tr2 where f2: "read_failed (arg_input a) x2 = (tr2, Exit 1)" "emitted tr2 = []"
        using emitted_read_failed [of "arg_input a" x2]
        by (cases "read_failed (arg_input a) x2") auto
      from Some win False assms(1,2) r f1 f2 show ?thesis
        by (simp add: main_def filter_complaints_def)
    next
      fix t1 t2
      assume r: "for_rows s e rows1 [] = Inr t1" "for_rows s e rows2 [] = Inr t2"
        and o: "output_lines t1 = output_lines t2"
      have "output_results w1 t1 (arg_output a) = output_results w2 t2 (arg_output a)"
        unfolding output_results_def o assms(4) by (rule refl)
      with Some win False assms(1,2) r show ?thesis
        by (simp add: main_def filter_complaints_def emitted_def split: prod.splits outcome.splits)
    qed
  qed
qed

text \<open>
  C2. The keys of the data lines are in strictly ascending order, pairs compared by
  complaint type first and borough second, strings compared character by character; and
  two runs with the same arguments whose input files hold the same rows in a different
  order emit the same bytes (to the output stream or the output file) and exit with the
  same status.
\<close>

theorem output_sorted_and_order_independent:
  assumes "fs w1 (arg_input a) = Opened rows1" and "fs w2 (arg_input a) = Opened rows2"
    and "mset rows1 = mset rows2" and "write_raises w1 = write_raises w2"
  shows "emitted (fst (main w1 a)) = emitted (fst (main w2 a))
       \<and> snd (main w1 a) = snd (main w2 a)
       \<and> (\<forall>s e t. for_rows s e rows1 [] = Inr t \<longrightarrow>
            sorted_wrt (<) (map fst (sorted_items t))
            \<and> tl (output_lines t) =
                map (\<lambda>((c, b), v). c @ '', '' @ b @ '', '' @ str_int v) (sorted_items t))"
proof -
  have "sorted_wrt (<) (map fst (sorted_items t))" if "for_rows s e rows1 [] = Inr t" for s e t
    using for_rows_table(2) [OF that] by (rule strict_sorted_items)
  with main_permuted [OF assms] show ?thesis by (simp add: output_lines_eq)
qed

theorem output_sorted_and_order_independent_witness:
  "mset example_rows = mset (rev example_rows)
   \<and> emitted (fst (main (example_world (rev example_rows)) (example_args ''data.csv'' ''01/01/2024'' ''01/31/2024''))) =
       [Stdout (''complaint type, borough, count'' @ nl @ ''Noise, BRONX, 2'' @ nl
                  @ ''Noise, BROOKLYN, 1'' @ nl)]
   \<and> sorted_wrt (<) [(''Noise'', ''BRONX''), (''Noise'', ''BROOKLYN'')]"
proof -
  let ?a = "example_args ''data.csv'' ''01/01/2024'' ''01/31/2024''"
  have h1: "fs (example_world rs) (arg_input ?a) = Opened rs" for rs
    by (simp add: example_world_def example_args_def)
  have h3: "mset example_rows = mset (rev example_rows)" by simp
  have h4: "write_raises (example_world example_rows) = write_raises (example_world (rev example_rows))"
    by (simp add: example_world_def)
  have pw: "parse_window ?a = Some (jan_1, jan_31_end)" by code_simp
  have le: "\<not> dt_less jan_31_end jan_1" by code_simp
  have fc: "filter_complaints (example_world example_rows) (arg_input ?a) jan_1 jan_31_end =
       ([OpenRead ''data.csv''],
        Return [((''Noise'', ''BRONX''), 2), ((''Noise'', ''BROOKLYN''), 1)])"
    by code_simp
  have out: "output_results (example_world example_rows)
        [((''Noise'', ''BRONX''), 2), ((''Noise'', ''BROOKLYN''), 1)] (arg_output ?a) =
       ([Stdout (''complaint type, borough, count'' @ nl @ ''Noise, BRONX, 2'' @ nl
                  @ ''Noise, BROOKLYN, 1'' @ nl)], Return ())"
    by code_simp
  have "main (example_world example_rows) ?a =
       ([OpenRead ''data.csv'',
         Stdout (''complaint type, borough, count'' @ nl @ ''Noise, BRONX, 2'' @ nl
                  @ ''Noise, BROOKLYN, 1'' @ nl)], 0)"
    unfolding main_def pw by (simp add: le fc out)
  then have e: "emitted (fst (main (example_world example_rows) ?a)) =
       [Stdout (''complaint type, borough, count'' @ nl @ ''Noise, BRONX, 2'' @ nl
                  @ ''Noise, BROOKLYN, 1'' @ nl)]"
    by (simp add: emitted_def)
  have r: "for_rows jan_1 jan_31_end example_rows [] =
      Inr [((''Noise'', ''BRONX''), 2), ((''Noise'', ''BROOKLYN''), 1)]"
    by code_simp
  have s: "sorted_items [((''Noise'', ''BRONX''), 2), ((''Noise'', ''BROOKLYN''), 1)] =
      [((''Noise'', ''BRONX''), 2), ((''Noise'', ''BROOKLYN''), 1)]"
    by code_simp
  note perm = output_sorted_and_order_independent [OF h1 h1 h3 h4]
  from perm e have a: "emitted (fst (main (example_world (rev example_rows)) ?a)) =
       [Stdout (''complaint type, borough, count'' @ nl @ ''Noise, BRONX, 2'' @ nl
                  @ ''Noise, BROOKLYN, 1'' @ nl)]"
    by simp
  from perm r have "sorted_wrt (<) (map fst (sorted_items [((''Noise'', ''BRONX''), 2), ((''Noise'', ''BROOKLYN''), 1)]))"
    by blast
  then have b: "sorted_wrt (<) [(''Noise'', ''BRONX''), (''Noise'', ''BROOKLYN'')]"
    by (simp only: s list.map fst_conv)
  from h3 a b show ?thesis by blast
qed

end
